theory Spec2Isabelle
  imports Complex_Main "HOL-Library.AList"
begin

section \<open>The conversion-job server of \<^verbatim>\<open>src/server/index.js\<close>\<close>

text \<open>
  The server is a single Node.js process. Its state is the \<^verbatim>\<open>jobs\<close> Map, the job objects
  that the Map and the callbacks' closures refer to, the files on disk, and the callbacks
  that are still pending (the \<^verbatim>\<open>process.nextTick\<close> queue, the running encoder commands
  and the \<^verbatim>\<open>setTimeout\<close> timers). Every callback runs to completion, so one callback is
  one step of the model. What the outside world decides (the identifier \<^verbatim>\<open>uuidv4()\<close>
  returns, the clock, what the encoder reports, whether an \<^verbatim>\<open>unlinkSync\<close> fails) is an
  argument of the step.
\<close>

subsection \<open>JavaScript values\<close>

text \<open>
  A JavaScript number: a finite value (every finite double is a rational), \<^verbatim>\<open>NaN\<close> or an
  infinity. \<^verbatim>\<open>-0\<close> is not told apart from \<^verbatim>\<open>0\<close>: both are falsy and both print as 0.
\<close>

datatype jsnum = Finite rat | NaN | PosInf | NegInf

fun truthy :: "jsnum \<Rightarrow> bool" where
  "truthy (Finite q) = (q \<noteq> 0)"
| "truthy NaN = False"
| "truthy PosInf = True"
| "truthy NegInf = True"

text \<open>\<^verbatim>\<open>x || 0\<close> for \<^verbatim>\<open>x\<close> a number or \<^verbatim>\<open>undefined\<close> (\<open>None\<close>).\<close>

definition or_0 :: "jsnum option \<Rightarrow> jsnum" where
  "or_0 x = (case x of None \<Rightarrow> Finite 0 | Some n \<Rightarrow> if truthy n then n else Finite 0)"

text \<open>
  \<^verbatim>\<open>Math.round\<close>: the integer closest to the argument, a tie going to the larger one;
  \<^verbatim>\<open>NaN\<close> and the infinities are returned as they are.
\<close>

fun Math_round :: "jsnum \<Rightarrow> jsnum" where
  "Math_round (Finite q) = Finite (of_int \<lfloor>q + 1 / 2\<rfloor>)"
| "Math_round NaN = NaN"
| "Math_round PosInf = PosInf"
| "Math_round NegInf = NegInf"

text \<open>
  The value an encoder failure or a \<^verbatim>\<open>catch\<close> hands over: an \<^verbatim>\<open>Error\<close> object with its
  \<^verbatim>\<open>message\<close> (a string, possibly empty) and what \<^verbatim>\<open>String(err)\<close> gives.
\<close>

record js_error =
  message :: string
  as_string :: string

text \<open>\<^verbatim>\<open>err.message || String(err)\<close>: the empty string is falsy.\<close>

definition message_or_string :: "js_error \<Rightarrow> string" where
  "message_or_string err = (if message err \<noteq> [] then message err else as_string err)"

subsection \<open>Jobs and the server state\<close>

datatype status = Queued | Processing | Done | Error

text \<open>
  The job object of lines 89--96. A property that has not been assigned yet reads
  \<^verbatim>\<open>undefined\<close>, which is \<open>None\<close> here. The property \<^verbatim>\<open>id\<close> is the field \<open>job_id\<close>.
\<close>

record job =
  job_id :: string
  status :: status
  progress :: jsnum
  inputPath :: string
  outputPath :: string
  createdAt :: int
  finishedAt :: "int option"
  error :: "string option"
  expiresAt :: "int option"
  cleanupTimer :: "nat option"

text \<open>
  Configuration read at start-up: \<open>TTL_SEC\<close> is what \<^verbatim>\<open>parseInt\<close> makes of the environment
  variable (\<open>None\<close> when it is unset or empty; a value that parses to \<^verbatim>\<open>NaN\<close> is outside
  the model), \<open>OUT_DIR\<close> the normalised path of the output directory.
\<close>

record conf =
  TTL_SEC :: "int option"
  OUT_DIR :: string

definition TTL_MS :: "conf \<Rightarrow> int" where
  "TTL_MS c = (case TTL_SEC c of None \<Rightarrow> 3600 | Some n \<Rightarrow> n) * 1000"

text \<open>
  \<^verbatim>\<open>path.join(dir, name)\<close> for a normalised \<open>dir\<close> and a \<open>name\<close> without separators or dot
  segments, which is what \<^verbatim>\<open>`${jobId}.mp3`\<close> is for an identifier made by \<^verbatim>\<open>uuidv4\<close>.
\<close>

definition path_join :: "string \<Rightarrow> string \<Rightarrow> string" where
  "path_join dir name = dir @ ''/'' @ name"

text \<open>
  The state. \<open>heap\<close> holds the job objects, a reference being an index into it; objects are
  only ever added, since a closure may still hold one after the Map has dropped it. A
  reference that the Map or a closure holds is always that of an object in the heap (part of
  the invariant below), so \<open>heap s ! r\<close> is never read out of range in a state the server
  can reach.
  \<open>jobs\<close> is the Map in insertion order, from identifier to reference. \<open>files\<close> are the
  paths that exist on disk. \<open>ticks\<close> are the pending \<^verbatim>\<open>convertToMp3(jobId)\<close> calls,
  \<open>encoders\<close> the running encoder commands (each with the \<^verbatim>\<open>jobId\<close> and \<^verbatim>\<open>job\<close> its
  handlers close over), \<open>timers\<close> the pending clean-up timers by handle, and \<open>console\<close> the
  lines written with \<^verbatim>\<open>console.log\<close> and \<^verbatim>\<open>console.error\<close>.
\<close>

record state =
  jobs :: "(string \<times> nat) list"
  heap :: "job list"
  files :: "string set"
  ticks :: "string list"
  encoders :: "(string \<times> nat) list"
  timers :: "(nat \<times> string \<times> nat) list"
  next_timer :: nat
  console :: "string list"

definition init :: "string set \<Rightarrow> state" where
  "init fs = \<lparr>jobs = [], heap = [], files = fs, ticks = [], encoders = [], timers = [],
     next_timer = 0, console = []\<rparr>"

text \<open>\<^verbatim>\<open>jobs.get(id)\<close>, and an assignment to properties of the object behind a reference.\<close>

definition jobs_get :: "state \<Rightarrow> string \<Rightarrow> nat option" where
  "jobs_get s jobId = map_of (jobs s) jobId"

definition assign :: "nat \<Rightarrow> (job \<Rightarrow> job) \<Rightarrow> state \<Rightarrow> state" where
  "assign r f s = s\<lparr>heap := (heap s)[r := f (heap s ! r)]\<rparr>"

subsection \<open>Responses\<close>

record status_payload =
  p_id :: string
  p_status :: status
  p_progress :: jsnum
  p_downloadUrl :: "string option"
  p_error :: "string option"

datatype body =
    ErrorBody string
  | UploadBody string string string
  | StatusBody status_payload

text \<open>
  \<open>Json code b\<close> is \<^verbatim>\<open>res.status(code).json(b)\<close>; \<open>Download p name\<close> is
  \<^verbatim>\<open>res.download(p, name)\<close>, which streams the file at \<open>p\<close>.
\<close>

datatype response = Json nat body | Download string string

subsection \<open>Eviction (lines 62--75 and 168--181)\<close>

datatype fs_error = ENOENT string | EPERM string

text \<open>
  \<^verbatim>\<open>fs.unlinkSync\<close>: it throws when the path does not exist, and it may throw on an existing
  path (the paths in \<open>locked\<close>: permissions, a busy file); otherwise the path is gone.
\<close>

definition unlinkSync :: "string set \<Rightarrow> string \<Rightarrow> string set \<Rightarrow> fs_error + string set" where
  "unlinkSync locked p fs =
     (if p \<notin> fs then Inl (ENOENT p)
      else if p \<in> locked then Inl (EPERM p)
      else Inr (fs - {p}))"

text \<open>
  The body of the \<^verbatim>\<open>try\<close> block, the same two lines in the timer callback (68--69) and in
  the sweep (173--174). It gives the files as they are when the block is left, and the
  exception if one was thrown; a throw on the input file skips the output file.
\<close>

definition unlink_artifacts :: "string set \<Rightarrow> job \<Rightarrow> string set \<Rightarrow> string set \<times> fs_error option" where
  "unlink_artifacts locked j fs =
     (case (if inputPath j \<noteq> [] \<and> inputPath j \<in> fs
            then unlinkSync locked (inputPath j) fs else Inr fs) of
        Inl e \<Rightarrow> (fs, Some e)
      | Inr fs1 \<Rightarrow>
          (case (if outputPath j \<noteq> [] \<and> outputPath j \<in> fs1
                 then unlinkSync locked (outputPath j) fs1 else Inr fs1) of
             Inl e \<Rightarrow> (fs1, Some e)
           | Inr fs2 \<Rightarrow> (fs2, None)))"

text \<open>The callback that \<^verbatim>\<open>scheduleCleanup\<close> hands to \<^verbatim>\<open>setTimeout\<close> (lines 66--74).\<close>

definition cleanup_callback :: "string set \<Rightarrow> string \<Rightarrow> nat \<Rightarrow> state \<Rightarrow> state" where
  "cleanup_callback locked jobId r s =
     (let (fs, e) = unlink_artifacts locked (heap s ! r) (files s)
      in s\<lparr>files := fs,
           console := console s @ (case e of None \<Rightarrow> [] | Some _ \<Rightarrow> [''cleanup error'']),
           jobs := AList.delete jobId (jobs s)\<rparr>)"

definition scheduleCleanup :: "string \<Rightarrow> int \<Rightarrow> int \<Rightarrow> state \<Rightarrow> state" where
  "scheduleCleanup jobId delayMs now s =
     (case jobs_get s jobId of
        None \<Rightarrow> s
      | Some r \<Rightarrow>
          (assign r (\<lambda>j. j\<lparr>expiresAt := Some (now + delayMs),
                           cleanupTimer := Some (next_timer s)\<rparr>) s)
            \<lparr>timers := timers s @ [(next_timer s, jobId, r)],
             next_timer := Suc (next_timer s)\<rparr>)"

text \<open>\<^verbatim>\<open>job.expiresAt && job.expiresAt <= now\<close>: \<^verbatim>\<open>undefined\<close> and 0 are falsy.\<close>

definition expired :: "int \<Rightarrow> job \<Rightarrow> bool" where
  "expired now j = (case expiresAt j of None \<Rightarrow> False | Some t \<Rightarrow> t \<noteq> 0 \<and> t \<le> now)"

text \<open>
  The periodic sweep. The loop visits the entries the Map has when the callback starts; its
  body deletes no entry but the one it is visiting, so the entries still to come are those
  of that list.
\<close>

definition sweep_body :: "string set \<Rightarrow> int \<Rightarrow> string \<times> nat \<Rightarrow> state \<Rightarrow> state" where
  "sweep_body locked now e s =
     (if expired now (heap s ! snd e) then
        (let (fs, x) = unlink_artifacts locked (heap s ! snd e) (files s)
         in s\<lparr>files := fs,
              console := console s @ (case x of None \<Rightarrow> [] | Some _ \<Rightarrow> [''sweep cleanup error'']),
              jobs := AList.delete (fst e) (jobs s)\<rparr>)
      else s)"

fun sweep_entries :: "string set \<Rightarrow> int \<Rightarrow> (string \<times> nat) list \<Rightarrow> state \<Rightarrow> state" where
  "sweep_entries locked now [] s = s"
| "sweep_entries locked now (e # es) s = sweep_entries locked now es (sweep_body locked now e s)"

definition sweep :: "string set \<Rightarrow> int \<Rightarrow> state \<Rightarrow> state" where
  "sweep locked now s = sweep_entries locked now (jobs s) s"

subsection \<open>Upload and conversion (lines 81--140)\<close>

text \<open>\<^verbatim>\<open>req.file\<close> as multer leaves it: only its \<^verbatim>\<open>path\<close> is read.\<close>

record multer_file =
  path :: string

text \<open>
  The handler of \<^verbatim>\<open>POST /api/upload\<close>. \<open>req_file\<close> is \<^verbatim>\<open>req.file\<close> (\<open>None\<close> when no file was
  accepted), \<open>jobId\<close> what \<^verbatim>\<open>uuidv4()\<close> returns and \<open>now\<close> what \<^verbatim>\<open>Date.now()\<close> returns.
\<close>

definition upload_handler ::
  "conf \<Rightarrow> multer_file option \<Rightarrow> string \<Rightarrow> int \<Rightarrow> state \<Rightarrow> state \<times> response" where
  "upload_handler c req_file jobId now s =
     (case req_file of
        None \<Rightarrow> (s, Json 400 (ErrorBody ''No file uploaded''))
      | Some f \<Rightarrow>
          (let j = \<lparr>job_id = jobId, status = Queued, progress = Finite 0,
                    inputPath = path f,
                    outputPath = path_join (OUT_DIR c) (jobId @ ''.mp3''),
                    createdAt = now, finishedAt = None, error = None,
                    expiresAt = None, cleanupTimer = None\<rparr>
           in (s\<lparr>heap := heap s @ [j],
                 jobs := AList.update jobId (length (heap s)) (jobs s),
                 ticks := ticks s @ [jobId]\<rparr>,
               Json 202 (UploadBody jobId (''/api/status/'' @ jobId)
                          (''/api/download/'' @ jobId)))))"

text \<open>
  The three handlers attached to the encoder command (lines 116--133). The terminal ones
  read the clock twice, once for \<^verbatim>\<open>finishedAt\<close> (\<open>now\<close>) and once more inside
  \<^verbatim>\<open>scheduleCleanup\<close> (\<open>now'\<close>).
\<close>

definition on_progress :: "nat \<Rightarrow> jsnum option \<Rightarrow> state \<Rightarrow> state" where
  "on_progress r percent s = assign r (\<lambda>j. j\<lparr>progress := Math_round (or_0 percent)\<rparr>) s"

definition on_end :: "conf \<Rightarrow> string \<Rightarrow> nat \<Rightarrow> int \<Rightarrow> int \<Rightarrow> state \<Rightarrow> state" where
  "on_end c jobId r now now' s =
     (let s1 = assign r (\<lambda>j. j\<lparr>status := Done, progress := Finite 100,
                                finishedAt := Some now\<rparr>) s;
          s2 = scheduleCleanup jobId (TTL_MS c) now' s1
      in s2\<lparr>console := console s2 @ [''Job '' @ jobId @ '' completed'']\<rparr>)"

definition on_error :: "conf \<Rightarrow> string \<Rightarrow> nat \<Rightarrow> js_error \<Rightarrow> int \<Rightarrow> int \<Rightarrow> state \<Rightarrow> state" where
  "on_error c jobId r err now now' s =
     (let s1 = assign r (\<lambda>j. j\<lparr>status := Error, error := Some (message_or_string err),
                                finishedAt := Some now\<rparr>) s;
          s2 = scheduleCleanup jobId (TTL_MS c) now' s1
      in s2\<lparr>console := console s2 @ [''ffmpeg error'']\<rparr>)"

text \<open>
  \<^verbatim>\<open>convertToMp3\<close>. \<open>thrown\<close> says how building and starting the encoder command went:
  \<open>None\<close> when it returned, with the command then running and the handlers attached, and
  \<open>Some err\<close> when it threw \<open>err\<close>, which the \<^verbatim>\<open>catch\<close> of lines 135--139 handles.
\<close>

definition convertToMp3 :: "conf \<Rightarrow> string \<Rightarrow> js_error option \<Rightarrow> int \<Rightarrow> state \<Rightarrow> state" where
  "convertToMp3 c jobId thrown now s =
     (case jobs_get s jobId of
        None \<Rightarrow> s
      | Some r \<Rightarrow>
          (let s1 = assign r (\<lambda>j. j\<lparr>status := Processing\<rparr>) s
           in case thrown of
                None \<Rightarrow> s1\<lparr>encoders := encoders s1 @ [(jobId, r)]\<rparr>
              | Some err \<Rightarrow>
                  scheduleCleanup jobId (TTL_MS c) now
                    (assign r (\<lambda>j. j\<lparr>status := Error, error := Some (message err)\<rparr>) s1)))"

subsection \<open>Status and download (lines 142--160)\<close>

definition get_status :: "state \<Rightarrow> string \<Rightarrow> response" where
  "get_status s ident =
     (case jobs_get s ident of
        None \<Rightarrow> Json 404 (ErrorBody ''Job not found'')
      | Some r \<Rightarrow>
          (let j = heap s ! r
           in Json 200 (StatusBody
                \<lparr>p_id = job_id j, p_status = status j, p_progress = or_0 (Some (progress j)),
                 p_downloadUrl = (if status j = Done then Some (''/api/download/'' @ job_id j)
                                  else None),
                 p_error = error j\<rparr>)))"

definition download :: "state \<Rightarrow> string \<Rightarrow> response" where
  "download s ident =
     (case jobs_get s ident of
        None \<Rightarrow> Json 404 (ErrorBody ''Job not found'')
      | Some r \<Rightarrow>
          (let j = heap s ! r
           in if status j \<noteq> Done \<or> outputPath j \<notin> files s
              then Json 400 (ErrorBody ''Output not ready'')
              else Download (outputPath j) (''audio-'' @ job_id j @ ''.mp3'')))"

subsection \<open>Events\<close>

text \<open>
  One event is one callback run by the event loop.
  \<^item> \<open>Upload f jobId now\<close>: an upload request reaches its handler, multer having stored the
    file at \<open>path f\<close>.
  \<^item> \<open>Start jobId thrown now\<close>: the \<^verbatim>\<open>process.nextTick\<close> callback \<^verbatim>\<open>convertToMp3(jobId)\<close>.
  \<^item> \<open>Progress jobId r percent\<close>, \<open>End jobId r now now'\<close>, \<open>Fail jobId r err now now'\<close>:
    the encoder command started for the object \<open>r\<close> emits \<^verbatim>\<open>progress\<close>, \<^verbatim>\<open>end\<close> or
    \<^verbatim>\<open>error\<close>.
  \<^item> \<open>Timeout h locked\<close>: the clean-up timer with handle \<open>h\<close> fires.
  \<^item> \<open>Sweep locked now\<close>: the \<^verbatim>\<open>setInterval\<close> callback.
\<close>

datatype event =
    Upload "multer_file option" string int
  | Start string "js_error option" int
  | Progress string nat "jsnum option"
  | End string nat int int
  | Fail string nat js_error int int
  | Timeout nat "string set"
  | Sweep "string set" int

text \<open>
  \<open>fire\<close> runs the callback of an event, and is \<open>None\<close> when the runtime cannot deliver the
  event in that state:
  \<^item> a \<^verbatim>\<open>nextTick\<close> callback and a timer run once, and only after they were scheduled;
  \<^item> \<^verbatim>\<open>uuidv4\<close> (an external package) returns an identifier that no job was given before,
    which is what the spec takes from it (``opaque unique identifier'', ``identifiers are
    not reused'');
  \<^item> the encoder (an external package) keeps the contract the spec states for it: for a
    command that was started it emits progress events and then exactly one of success and
    failure, and nothing after it; a command whose start threw emits nothing; at success the
    output file has been written to the target path.
\<close>

definition fire :: "conf \<Rightarrow> event \<Rightarrow> state \<Rightarrow> state option" where
  "fire c e s =
     (case e of
        Upload req_file jobId now \<Rightarrow>
          (case req_file of
             None \<Rightarrow> Some (fst (upload_handler c None jobId now s))
           | Some f \<Rightarrow>
               if jobId \<in> set (map job_id (heap s)) then None
               else Some (fst (upload_handler c (Some f) jobId now
                                 (s\<lparr>files := insert (path f) (files s)\<rparr>))))
      | Start jobId thrown now \<Rightarrow>
          if jobId \<in> set (ticks s)
          then Some (convertToMp3 c jobId thrown now (s\<lparr>ticks := remove1 jobId (ticks s)\<rparr>))
          else None
      | Progress jobId r percent \<Rightarrow>
          if (jobId, r) \<in> set (encoders s) then Some (on_progress r percent s) else None
      | End jobId r now now' \<Rightarrow>
          if (jobId, r) \<in> set (encoders s)
          then Some (on_end c jobId r now now'
                       (s\<lparr>encoders := remove1 (jobId, r) (encoders s),
                          files := insert (outputPath (heap s ! r)) (files s)\<rparr>))
          else None
      | Fail jobId r err now now' \<Rightarrow>
          if (jobId, r) \<in> set (encoders s)
          then Some (on_error c jobId r err now now'
                       (s\<lparr>encoders := remove1 (jobId, r) (encoders s)\<rparr>))
          else None
      | Timeout h locked \<Rightarrow>
          (case map_of (timers s) h of
             None \<Rightarrow> None
           | Some (jobId, r) \<Rightarrow>
               Some (cleanup_callback locked jobId r
                       (s\<lparr>timers := AList.delete h (timers s)\<rparr>)))
      | Sweep locked now \<Rightarrow> Some (sweep locked now s))"

fun run :: "conf \<Rightarrow> event list \<Rightarrow> state \<Rightarrow> state option" where
  "run c [] s = Some s"
| "run c (e # es) s = (case fire c e s of None \<Rightarrow> None | Some s' \<Rightarrow> run c es s')"

section \<open>Properties and invariants\<close>

text \<open>
  The invariant of the states the server can reach. About the job objects: identifiers are
  unique, the output path is derived from the identifier, a job that has not reached a
  terminal state has no expiry time, and an error message is recorded exactly for the jobs
  with status error.
\<close>

definition inv_heap :: "conf \<Rightarrow> state \<Rightarrow> bool" where
  "inv_heap c s \<longleftrightarrow>
     distinct (map job_id (heap s)) \<and>
     (\<forall>r < length (heap s).
        outputPath (heap s ! r) = path_join (OUT_DIR c) (job_id (heap s ! r) @ ''.mp3'') \<and>
        (status (heap s ! r) = Queued \<or> status (heap s ! r) = Processing \<longrightarrow> expiresAt (heap s ! r) = None) \<and>
        ((error (heap s ! r) \<noteq> None) = (status (heap s ! r) = Error)))"

text \<open>The Map has one entry per key, and the entry for a key is a job with that identifier.\<close>

definition inv_jobs :: "state \<Rightarrow> bool" where
  "inv_jobs s \<longleftrightarrow>
     distinct (map fst (jobs s)) \<and>
     (\<forall>(k, r) \<in> set (jobs s). r < length (heap s) \<and> job_id (heap s ! r) = k)"

text \<open>A conversion that is still to start belongs to a queued job that the Map holds.\<close>

definition inv_ticks :: "state \<Rightarrow> bool" where
  "inv_ticks s \<longleftrightarrow>
     distinct (ticks s) \<and>
     (\<forall>i \<in> set (ticks s).
        case jobs_get s i of None \<Rightarrow> False | Some r \<Rightarrow> status (heap s ! r) = Queued)"

text \<open>A running encoder belongs to a processing job that the Map holds under its identifier.\<close>

definition inv_encoders :: "state \<Rightarrow> bool" where
  "inv_encoders s \<longleftrightarrow>
     distinct (encoders s) \<and>
     (\<forall>(i, r) \<in> set (encoders s). jobs_get s i = Some r \<and> status (heap s ! r) = Processing)"

text \<open>A pending clean-up timer belongs to a job in a terminal state.\<close>

definition inv_timers :: "state \<Rightarrow> bool" where
  "inv_timers s \<longleftrightarrow>
     (\<forall>(h, i, r) \<in> set (timers s). h < next_timer s \<and> r < length (heap s) \<and> job_id (heap s ! r) = i \<and>
        (status (heap s ! r) = Done \<or> status (heap s ! r) = Error))"

definition inv :: "conf \<Rightarrow> state \<Rightarrow> bool" where
  "inv c s \<longleftrightarrow> inv_heap c s \<and> inv_jobs s \<and> inv_ticks s \<and> inv_encoders s \<and> inv_timers s"

text \<open>
  The order of the stages: queued, then processing, then the two terminal states.
  \<open>forward a b\<close> says that \<open>b\<close> is \<open>a\<close> itself or a later stage; nothing is later than a
  terminal state.
\<close>

fun rank :: "status \<Rightarrow> nat" where
  "rank Queued = 0"
| "rank Processing = 1"
| "rank Done = 2"
| "rank Error = 2"

definition forward :: "status \<Rightarrow> status \<Rightarrow> bool" where
  "forward a b \<longleftrightarrow> a = b \<or> rank a < rank b"

text \<open>An integer from 0 to 100.\<close>

definition is_percent :: "jsnum \<Rightarrow> bool" where
  "is_percent x = (case x of Finite q \<Rightarrow> of_int \<lfloor>q\<rfloor> = q \<and> 0 \<le> q \<and> q \<le> 100 | _ \<Rightarrow> False)"

text \<open>The paths an eviction of job \<open>j\<close> may unlink: a path that is the empty string is skipped.\<close>

definition artifacts :: "job \<Rightarrow> string set" where
  "artifacts j = {p. (p = inputPath j \<or> p = outputPath j) \<and> p \<noteq> []}"

subsection \<open>A concrete scenario\<close>

text \<open>
  One upload followed through its life, for the worked examples below.
\<close>

definition demo_conf :: conf where
  "demo_conf = \<lparr>TTL_SEC = None, OUT_DIR = ''out''\<rparr>"

definition demo_file :: multer_file where
  "demo_file = \<lparr>path = ''up/v''\<rparr>"

definition demo_err :: js_error where
  "demo_err = \<lparr>message = ''boom'', as_string = ''Error: boom''\<rparr>"

definition demo_job :: job where
  "demo_job = \<lparr>job_id = ''a'', status = Queued, progress = Finite 0, inputPath = ''up/v'',
     outputPath = ''out/a.mp3'', createdAt = 5, finishedAt = None, error = None,
     expiresAt = None, cleanupTimer = None\<rparr>"

definition demo_processing :: state where
  "demo_processing = \<lparr>jobs = [(''a'', 0)], heap = [demo_job\<lparr>status := Processing\<rparr>],
     files = {''up/v''}, ticks = [], encoders = [(''a'', 0)], timers = [], next_timer = 0,
     console = []\<rparr>"

definition demo_done :: state where
  "demo_done = \<lparr>jobs = [(''a'', 0)],
     heap = [demo_job\<lparr>status := Done, progress := Finite 100, finishedAt := Some 9,
                      expiresAt := Some 3600009, cleanupTimer := Some 0\<rparr>],
     files = {''out/a.mp3'', ''up/v''}, ticks = [], encoders = [], timers = [(0, ''a'', 0)],
     next_timer = 1, console = [''Job a completed'']\<rparr>"

definition demo_evicted :: state where
  "demo_evicted = demo_done\<lparr>jobs := [], files := {}, timers := []\<rparr>"

definition demo_stuck :: state where
  "demo_stuck = demo_done\<lparr>jobs := [], timers := [],
     console := [''Job a completed'', ''cleanup error'']\<rparr>"

definition demo_thrown :: state where
  "demo_thrown = \<lparr>jobs = [(''a'', 0)],
     heap = [demo_job\<lparr>status := Error, error := Some ''boom'', expiresAt := Some 3600009,
                      cleanupTimer := Some 0\<rparr>],
     files = {''up/v''}, ticks = [], encoders = [], timers = [(0, ''a'', 0)], next_timer = 1,
     console = []\<rparr>"

definition demo_failed :: state where
  "demo_failed = \<lparr>jobs = [(''a'', 0)],
     heap = [demo_job\<lparr>status := Error, error := Some ''boom'', finishedAt := Some 9,
                      expiresAt := Some 3600009, cleanupTimer := Some 0\<rparr>],
     files = {''up/v''}, ticks = [], encoders = [], timers = [(0, ''a'', 0)], next_timer = 1,
     console = [''ffmpeg error'']\<rparr>"

definition demo_two :: state where
  "demo_two = \<lparr>jobs = [(''a'', 0), (''b'', 1)],
     heap = [demo_job, demo_job\<lparr>job_id := ''b'', inputPath := ''up/w'',
                                 outputPath := ''out/b.mp3'', createdAt := 7\<rparr>],
     files = {''up/w'', ''up/v''}, ticks = [''a'', ''b''], encoders = [], timers = [],
     next_timer = 0, console = []\<rparr>"

section \<open>Frame lemmas and the invariant\<close>

lemma assign_fields [simp]:
  "jobs (assign r f s) = jobs s" "files (assign r f s) = files s"
  "ticks (assign r f s) = ticks s" "encoders (assign r f s) = encoders s"
  "timers (assign r f s) = timers s" "next_timer (assign r f s) = next_timer s"
  "console (assign r f s) = console s"
  "length (heap (assign r f s)) = length (heap s)"
  by (simp_all add: assign_def)

lemma heap_assign_nth:
  "heap (assign r f s) ! r' = (if r' = r \<and> r < length (heap s) then f (heap s ! r) else heap s ! r')"
  by (cases "r < length (heap s)") (auto simp: assign_def nth_list_update list_update_beyond)

lemma map_list_update_same: "g y = g (xs ! r) \<Longrightarrow> map g (xs[r := y]) = map g xs"
  by (induction xs arbitrary: r) (auto split: nat.splits)

lemma job_ids_assign: "job_id (f (heap s ! r)) = job_id (heap s ! r) \<Longrightarrow> map job_id (heap (assign r f s)) = map job_id (heap s)"
  by (simp add: assign_def map_list_update_same)

lemma inv_init: "inv c (init fs)"
  by (simp add: inv_def inv_heap_def inv_jobs_def inv_ticks_def inv_encoders_def inv_timers_def init_def)

lemma jobs_get_bound: "inv_jobs s \<Longrightarrow> jobs_get s i = Some r \<Longrightarrow> r < length (heap s) \<and> job_id (heap s ! r) = i"
  by (auto simp: inv_jobs_def jobs_get_def dest!: map_of_SomeD)

lemma inv_progress:
  assumes "inv c s" "(i, r) \<in> set (encoders s)"
  shows "inv c (on_progress r p s)"
  using assms
  apply (simp add: inv_def on_progress_def)
  apply (intro conjI)
      apply (auto simp: inv_heap_def job_ids_assign heap_assign_nth)[1]
     apply (auto simp: inv_jobs_def heap_assign_nth)[1]
    apply (auto simp: inv_ticks_def heap_assign_nth jobs_get_def split: option.splits)[1]
   apply (auto simp: inv_encoders_def heap_assign_nth jobs_get_def)[1]
  apply (auto simp: inv_timers_def heap_assign_nth)[1]
  done

lemma scheduleCleanup_Some:
  "jobs_get s i = Some r \<Longrightarrow>
   scheduleCleanup i d now s =
     (assign r (\<lambda>j. j\<lparr>expiresAt := Some (now + d), cleanupTimer := Some (next_timer s)\<rparr>) s)
       \<lparr>timers := timers s @ [(next_timer s, i, r)], next_timer := Suc (next_timer s)\<rparr>"
  by (simp add: scheduleCleanup_def)

lemma inv_end:
  assumes "inv c s" "(i, r) \<in> set (encoders s)"
  shows "inv c (on_end c i r now now' (s\<lparr>encoders := remove1 (i, r) (encoders s), files := insert (outputPath (heap s ! r)) (files s)\<rparr>))"
proof -
  have g: "jobs_get s i = Some r" and st: "status (heap s ! r) = Processing"
    using assms by (auto simp: inv_def inv_encoders_def)
  have b: "r < length (heap s)" "job_id (heap s ! r) = i"
    using assms g jobs_get_bound by (auto simp: inv_def)
  have u: "\<And>a. (a, r) \<in> set (encoders s) \<Longrightarrow> a = i"
    using assms(1) b jobs_get_bound by (fastforce simp: inv_def inv_encoders_def)
  note facts = g st b assms(2)
  let ?s = "on_end c i r now now' (s\<lparr>encoders := remove1 (i, r) (encoders s), files := insert (outputPath (heap s ! r)) (files s)\<rparr>)"
  have e: "?s = (assign r (\<lambda>j. j\<lparr>expiresAt := Some (now' + TTL_MS c), cleanupTimer := Some (next_timer s)\<rparr>)
           (assign r (\<lambda>j. j\<lparr>status := Done, progress := Finite 100, finishedAt := Some now\<rparr>)
             (s\<lparr>encoders := remove1 (i, r) (encoders s), files := insert (outputPath (heap s ! r)) (files s)\<rparr>)))
          \<lparr>timers := timers s @ [(next_timer s, i, r)], next_timer := Suc (next_timer s),
            console := console s @ [''Job '' @ i @ '' completed'']\<rparr>"
    using g by (simp add: on_end_def Let_def scheduleCleanup_Some jobs_get_def)
  have "inv_heap c ?s"
    using assms(1) facts unfolding e by (auto simp: inv_def inv_heap_def job_ids_assign heap_assign_nth)
  moreover have "inv_jobs ?s"
    using assms(1) facts unfolding e by (auto simp: inv_def inv_jobs_def heap_assign_nth)
  moreover have "inv_ticks ?s"
    using assms(1) facts unfolding e
    by (auto simp: inv_def inv_ticks_def heap_assign_nth jobs_get_def split: option.splits)
  moreover have "inv_encoders ?s"
    using assms(1) facts unfolding e
    by (auto simp: inv_def inv_encoders_def heap_assign_nth jobs_get_def dest: u)
  moreover have "inv_timers ?s"
    using assms(1) facts unfolding e
    by (auto simp: inv_def inv_timers_def heap_assign_nth)
  ultimately show ?thesis by (simp add: inv_def)
qed

lemma inv_fail:
  assumes "inv c s" "(i, r) \<in> set (encoders s)"
  shows "inv c (on_error c i r err now now' (s\<lparr>encoders := remove1 (i, r) (encoders s)\<rparr>))"
proof -
  have g: "jobs_get s i = Some r" and st: "status (heap s ! r) = Processing"
    using assms by (auto simp: inv_def inv_encoders_def)
  have b: "r < length (heap s)" "job_id (heap s ! r) = i"
    using assms g jobs_get_bound by (auto simp: inv_def)
  have u: "\<And>a. (a, r) \<in> set (encoders s) \<Longrightarrow> a = i"
    using assms(1) b jobs_get_bound by (fastforce simp: inv_def inv_encoders_def)
  note facts = g st b assms(2)
  let ?s = "on_error c i r err now now' (s\<lparr>encoders := remove1 (i, r) (encoders s)\<rparr>)"
  have e: "?s = (assign r (\<lambda>j. j\<lparr>expiresAt := Some (now' + TTL_MS c), cleanupTimer := Some (next_timer s)\<rparr>)
           (assign r (\<lambda>j. j\<lparr>status := Error, error := Some (message_or_string err), finishedAt := Some now\<rparr>)
             (s\<lparr>encoders := remove1 (i, r) (encoders s)\<rparr>)))
          \<lparr>timers := timers s @ [(next_timer s, i, r)], next_timer := Suc (next_timer s),
            console := console s @ [''ffmpeg error'']\<rparr>"
    using g by (simp add: on_error_def Let_def scheduleCleanup_Some jobs_get_def)
  have "inv_heap c ?s"
    using assms(1) facts unfolding e by (auto simp: inv_def inv_heap_def job_ids_assign heap_assign_nth)
  moreover have "inv_jobs ?s"
    using assms(1) facts unfolding e by (auto simp: inv_def inv_jobs_def heap_assign_nth)
  moreover have "inv_ticks ?s"
    using assms(1) facts unfolding e
    by (auto simp: inv_def inv_ticks_def heap_assign_nth jobs_get_def split: option.splits)
  moreover have "inv_encoders ?s"
    using assms(1) facts unfolding e
    by (auto simp: inv_def inv_encoders_def heap_assign_nth jobs_get_def dest: u)
  moreover have "inv_timers ?s"
    using assms(1) facts unfolding e
    by (auto simp: inv_def inv_timers_def heap_assign_nth)
  ultimately show ?thesis by (simp add: inv_def)
qed

lemma tick_job:
  assumes "inv c s" "i \<in> set (ticks s)"
  obtains r where "jobs_get s i = Some r" "status (heap s ! r) = Queued"
    "r < length (heap s)" "job_id (heap s ! r) = i"
proof -
  from assms obtain r where g: "jobs_get s i = Some r" and q: "status (heap s ! r) = Queued"
    by (auto simp: inv_def inv_ticks_def split: option.splits)
  moreover have "r < length (heap s)" "job_id (heap s ! r) = i"
    using assms(1) g jobs_get_bound by (auto simp: inv_def)
  ultimately show thesis using that by blast
qed

lemma inv_start:
  assumes "inv c s" "i \<in> set (ticks s)"
  shows "inv c (convertToMp3 c i thrown now (s\<lparr>ticks := remove1 i (ticks s)\<rparr>))"
proof -
  from assms obtain r where g: "jobs_get s i = Some r" and st: "status (heap s ! r) = Queued"
    and b: "r < length (heap s)" "job_id (heap s ! r) = i"
    by (rule tick_job)
  have u: "\<And>a r'. jobs_get s a = Some r \<Longrightarrow> a = i"
    using assms(1) b jobs_get_bound by (fastforce simp: inv_def)
  note facts = g st b assms(2)
  let ?s = "convertToMp3 c i thrown now (s\<lparr>ticks := remove1 i (ticks s)\<rparr>)"
  show ?thesis
  proof (cases thrown)
    case None
    have e: "?s = (assign r (\<lambda>j. j\<lparr>status := Processing\<rparr>) (s\<lparr>ticks := remove1 i (ticks s)\<rparr>))
                  \<lparr>encoders := encoders s @ [(i, r)]\<rparr>"
      using g None by (simp add: convertToMp3_def Let_def jobs_get_def)
    have "inv_heap c ?s"
      using assms(1) facts unfolding e by (auto simp: inv_def inv_heap_def job_ids_assign heap_assign_nth)
    moreover have "inv_jobs ?s"
      using assms(1) facts unfolding e by (auto simp: inv_def inv_jobs_def heap_assign_nth)
    moreover have "inv_ticks ?s"
      using assms(1) facts unfolding e
      by (auto simp: inv_def inv_ticks_def heap_assign_nth jobs_get_def split: option.splits
               dest: u[unfolded jobs_get_def])
    moreover have "inv_encoders ?s"
      using assms(1) facts unfolding e
      by (auto simp: inv_def inv_encoders_def heap_assign_nth jobs_get_def)
    moreover have "inv_timers ?s"
      using assms(1) facts unfolding e
      by (auto simp: inv_def inv_timers_def heap_assign_nth)
    ultimately show ?thesis by (simp add: inv_def)
  next
    case (Some err)
    have e: "?s = (assign r (\<lambda>j. j\<lparr>expiresAt := Some (now + TTL_MS c), cleanupTimer := Some (next_timer s)\<rparr>)
           (assign r (\<lambda>j. j\<lparr>status := Error, error := Some (message err)\<rparr>)
             (assign r (\<lambda>j. j\<lparr>status := Processing\<rparr>) (s\<lparr>ticks := remove1 i (ticks s)\<rparr>))))
          \<lparr>timers := timers s @ [(next_timer s, i, r)], next_timer := Suc (next_timer s)\<rparr>"
      using g Some by (simp add: convertToMp3_def Let_def scheduleCleanup_Some jobs_get_def)
    have "inv_heap c ?s"
      using assms(1) facts unfolding e by (auto simp: inv_def inv_heap_def job_ids_assign heap_assign_nth)
    moreover have "inv_jobs ?s"
      using assms(1) facts unfolding e by (auto simp: inv_def inv_jobs_def heap_assign_nth)
    moreover have "inv_ticks ?s"
      using assms(1) facts unfolding e
      by (auto simp: inv_def inv_ticks_def heap_assign_nth jobs_get_def split: option.splits
               dest: u[unfolded jobs_get_def])
    moreover have "inv_encoders ?s"
      using assms(1) facts unfolding e
      by (auto simp: inv_def inv_encoders_def heap_assign_nth jobs_get_def)
    moreover have "inv_timers ?s"
      using assms(1) facts unfolding e
      by (auto simp: inv_def inv_timers_def heap_assign_nth)
    ultimately show ?thesis by (simp add: inv_def)
  qed
qed

lemma update_fresh: "k \<notin> fst ` set al \<Longrightarrow> AList.update k v al = al @ [(k, v)]"
  by (induction al) auto

lemma store_keys_issued:
  "inv_jobs s \<Longrightarrow> fst ` set (jobs s) \<subseteq> set (map job_id (heap s))"
  by (fastforce simp: inv_jobs_def)

lemma inv_upload:
  assumes "inv c s" "i \<notin> set (map job_id (heap s))"
  shows "inv c (fst (upload_handler c (Some f) i now (s\<lparr>files := insert (path f) (files s)\<rparr>)))"
proof -
  let ?j = "\<lparr>job_id = i, status = Queued, progress = Finite 0, inputPath = path f,
             outputPath = path_join (OUT_DIR c) (i @ ''.mp3''), createdAt = now, finishedAt = None,
             error = None, expiresAt = None, cleanupTimer = None\<rparr>"
  let ?s = "fst (upload_handler c (Some f) i now (s\<lparr>files := insert (path f) (files s)\<rparr>))"
  have k: "i \<notin> fst ` set (jobs s)"
    using assms store_keys_issued by (auto simp: inv_def)
  have e: "?s = s\<lparr>files := insert (path f) (files s), heap := heap s @ [?j],
                   jobs := jobs s @ [(i, length (heap s))], ticks := ticks s @ [i]\<rparr>"
    using k by (simp add: upload_handler_def Let_def update_fresh)
  have kn: "map_of (jobs s) i = None"
    using k by (simp add: map_of_eq_None_iff)
  have g': "\<And>a. map_of (jobs s @ [(i, length (heap s))]) a =
              (if a = i then Some (length (heap s)) else map_of (jobs s) a)"
    using kn by (auto simp: map_add_def split: option.splits)
  have bnd: "\<And>a r. map_of (jobs s) a = Some r \<Longrightarrow> r < length (heap s)"
    using assms(1) jobs_get_bound by (auto simp: inv_def jobs_get_def)
  have t: "i \<notin> set (ticks s)"
    using assms(1) kn by (auto simp: inv_def inv_ticks_def jobs_get_def split: option.splits)
  have "inv_heap c ?s"
    using assms unfolding e by (auto simp: inv_def inv_heap_def nth_append)
  moreover have "inv_jobs ?s"
    using assms k unfolding e by (auto simp: inv_def inv_jobs_def nth_append)
  moreover have "inv_ticks ?s"
    using assms(1) t kn unfolding e
    by (auto simp: inv_def inv_ticks_def jobs_get_def nth_append g' 
        split: option.splits dest: bnd)
  moreover have "inv_encoders ?s"
    using assms(1) kn unfolding e
    by (auto simp: inv_def inv_encoders_def jobs_get_def nth_append g'
        split: option.splits dest: bnd)
  moreover have "inv_timers ?s"
    using assms unfolding e
    by (auto simp: inv_def inv_timers_def nth_append)
  ultimately show ?thesis by (simp add: inv_def)
qed

lemma same_id_same_ref:
  "inv_heap c s \<Longrightarrow> r < length (heap s) \<Longrightarrow> r' < length (heap s) \<Longrightarrow>
   job_id (heap s ! r) = job_id (heap s ! r') \<Longrightarrow> r = r'"
  using nth_eq_iff_index_eq [of "map job_id (heap s)" r r'] by (simp add: inv_heap_def)

lemma cleanup_fields [simp]:
  "jobs (cleanup_callback locked i r s) = AList.delete i (jobs s)"
  "heap (cleanup_callback locked i r s) = heap s"
  "ticks (cleanup_callback locked i r s) = ticks s"
  "encoders (cleanup_callback locked i r s) = encoders s"
  "timers (cleanup_callback locked i r s) = timers s"
  "next_timer (cleanup_callback locked i r s) = next_timer s"
  by (simp_all add: cleanup_callback_def split: prod.splits)

lemma sweep_body_fields [simp]:
  "jobs (sweep_body locked now e s) =
     (if expired now (heap s ! snd e) then AList.delete (fst e) (jobs s) else jobs s)"
  "heap (sweep_body locked now e s) = heap s"
  "ticks (sweep_body locked now e s) = ticks s"
  "encoders (sweep_body locked now e s) = encoders s"
  "timers (sweep_body locked now e s) = timers s"
  "next_timer (sweep_body locked now e s) = next_timer s"
  by (simp_all add: sweep_body_def split: prod.splits)

lemma sweep_entries_fields [simp]:
  "heap (sweep_entries locked now es s) = heap s"
  "ticks (sweep_entries locked now es s) = ticks s"
  "encoders (sweep_entries locked now es s) = encoders s"
  "timers (sweep_entries locked now es s) = timers s"
  "next_timer (sweep_entries locked now es s) = next_timer s"
  by (induction es arbitrary: s; simp)+

lemma sweep_entries_jobs:
  "jobs (sweep_entries locked now es s) =
     filter (\<lambda>(k, _). k \<notin> fst ` {e \<in> set es. expired now (heap s ! snd e)}) (jobs s)"
proof (induction es arbitrary: s)
  case Nil
  then show ?case by simp
next
  case (Cons e es)
  show ?case
    by (auto simp: Cons.IH AList.delete_eq intro!: filter_cong)
qed

text \<open>Removing entries of the Map keeps the invariant, as long as no pending tick and no running
  encoder loses its entry.\<close>

lemma inv_drop_entries:
  assumes "inv c s"
    and "heap s' = heap s" "ticks s' = ticks s" "encoders s' = encoders s"
    and "set (timers s') \<subseteq> set (timers s)" "next_timer s' = next_timer s"
    and "jobs s' = filter (\<lambda>(k, _). k \<notin> X) (jobs s)"
    and "\<And>k r. k \<in> X \<Longrightarrow> jobs_get s k = Some r \<Longrightarrow>
           status (heap s ! r) = Done \<or> status (heap s ! r) = Error"
  shows "inv c s'"
proof -
  have d: "distinct (map fst (jobs s))"
    using assms(1) by (simp add: inv_def inv_jobs_def)
  have keep: "\<And>k r. jobs_get s k = Some r \<Longrightarrow> k \<notin> X \<Longrightarrow> jobs_get s' k = Some r"
    unfolding jobs_get_def assms(7) by (rule map_of_filter_in) auto
  have "inv_heap c s'"
    using assms(1,2) by (simp add: inv_def inv_heap_def)
  moreover have "inv_jobs s'"
    using assms(1,2) by (auto simp: inv_def inv_jobs_def assms(7) distinct_map_filter)
  moreover have "inv_ticks s'"
    using assms(1,2,3,8) keep
    by (fastforce simp: inv_def inv_ticks_def split: option.splits)
  moreover have "inv_encoders s'"
    using assms(1,2,4,8) keep
    by (fastforce simp: inv_def inv_encoders_def)
  moreover have "inv_timers s'"
    using assms(1,2,5,6) by (auto simp: inv_def inv_timers_def)
  ultimately show ?thesis by (simp add: inv_def)
qed

lemma inv_timeout:
  assumes "inv c s" "map_of (timers s) h = Some (i, r)"
  shows "inv c (cleanup_callback locked i r (s\<lparr>timers := AList.delete h (timers s)\<rparr>))"
proof (rule inv_drop_entries [OF assms(1), where X = "{i}"])
  have t: "(h, i, r) \<in> set (timers s)"
    using assms(2) by (rule map_of_SomeD)
  then have tr: "r < length (heap s)" "job_id (heap s ! r) = i"
    "status (heap s ! r) = Done \<or> status (heap s ! r) = Error"
    using assms(1) by (auto simp: inv_def inv_timers_def)
  fix k r' assume "k \<in> {i}" "jobs_get s k = Some r'"
  then have "r' < length (heap s)" "job_id (heap s ! r') = i"
    using assms(1) jobs_get_bound by (auto simp: inv_def)
  then have "r' = r"
    using same_id_same_ref assms(1) tr by (auto simp: inv_def)
  then show "status (heap s ! r') = Done \<or> status (heap s ! r') = Error"
    using tr by simp
qed (auto simp: AList.delete_eq intro!: filter_cong)

lemma inv_sweep:
  assumes "inv c s"
  shows "inv c (sweep locked now s)"
proof (rule inv_drop_entries [OF assms(1), where X = "fst ` {e \<in> set (jobs s). expired now (heap s ! snd e)}"])
  fix k r assume "k \<in> fst ` {e \<in> set (jobs s). expired now (heap s ! snd e)}" "jobs_get s k = Some r"
  then obtain r' where "(k, r') \<in> set (jobs s)" "expired now (heap s ! r')" "map_of (jobs s) k = Some r"
    by (auto simp: jobs_get_def)
  moreover have "distinct (map fst (jobs s))"
    using assms by (simp add: inv_def inv_jobs_def)
  ultimately have x: "expired now (heap s ! r)" "r < length (heap s)"
    using assms jobs_get_bound by (auto simp: inv_def jobs_get_def)
  then show "status (heap s ! r) = Done \<or> status (heap s ! r) = Error"
    using assms by (cases "status (heap s ! r)") (auto simp: inv_def inv_heap_def expired_def)
qed (simp_all add: sweep_def sweep_entries_jobs)

lemma inv_fire:
  assumes "inv c s" "fire c e s = Some s'"
  shows "inv c s'"
proof (cases e)
  case (Upload req_file jobId now)
  then show ?thesis
    using assms inv_upload [of c s jobId _ now]
    by (auto simp: fire_def upload_handler_def split: option.splits if_splits)
next
  case (Start jobId thrown now)
  then show ?thesis
    using assms inv_start by (auto simp: fire_def split: if_splits)
next
  case (Progress jobId r percent)
  then show ?thesis
    using assms inv_progress by (auto simp: fire_def split: if_splits)
next
  case (End jobId r now now')
  then show ?thesis
    using assms inv_end by (auto simp: fire_def split: if_splits)
next
  case (Fail jobId r err now now')
  then show ?thesis
    using assms inv_fail by (auto simp: fire_def split: if_splits)
next
  case (Timeout h locked)
  then show ?thesis
    using assms inv_timeout by (auto simp: fire_def split: option.splits)
next
  case (Sweep locked now)
  then show ?thesis
    using assms inv_sweep by (auto simp: fire_def)
qed

lemma inv_run: "inv c s \<Longrightarrow> run c evs s = Some s' \<Longrightarrow> inv c s'"
  by (induction evs arbitrary: s) (auto split: option.splits dest: inv_fire)

lemma inv_reachable: "run c evs (init fs) = Some s \<Longrightarrow> inv c s"
  using inv_run inv_init by blast

lemma forward_refl [simp]: "forward a a"
  by (simp add: forward_def)

lemma forward_trans: "forward a b \<Longrightarrow> forward b c \<Longrightarrow> forward a c"
  by (auto simp: forward_def)

lemma forward_terminal: "forward a b \<Longrightarrow> a = Done \<or> a = Error \<Longrightarrow> b = a"
  by (cases b) (auto simp: forward_def)

lemma scheduleCleanup_frame [simp]:
  "jobs (scheduleCleanup i d now s) = jobs s"
  "length (heap (scheduleCleanup i d now s)) = length (heap s)"
  "status (heap (scheduleCleanup i d now s) ! r) = status (heap s ! r)"
  "job_id (heap (scheduleCleanup i d now s) ! r) = job_id (heap s ! r)"
  by (simp_all add: scheduleCleanup_def heap_assign_nth split: option.splits)

lemma forward_fire:
  assumes "inv c s" "fire c e s = Some s'" "r < length (heap s)"
  shows "r < length (heap s') \<and> forward (status (heap s ! r)) (status (heap s' ! r))"
proof (cases e)
  case (Upload req_file jobId now)
  then show ?thesis
    using assms
    by (auto simp: fire_def upload_handler_def nth_append Let_def split: option.splits if_splits)
next
  case (Start jobId thrown now)
  with assms have t: "jobId \<in> set (ticks s)"
    by (auto simp: fire_def split: if_splits)
  with assms(1) obtain r' where "jobs_get s jobId = Some r'" "status (heap s ! r') = Queued"
    by (auto elim: tick_job)
  then show ?thesis
    using assms Start t
    by (auto simp: fire_def convertToMp3_def jobs_get_def heap_assign_nth Let_def forward_def
             split: option.splits)
next
  case (Progress jobId r' percent)
  then show ?thesis
    using assms by (auto simp: fire_def on_progress_def heap_assign_nth split: if_splits)
next
  case (End jobId r' now now')
  with assms have "(jobId, r') \<in> set (encoders s)"
    by (auto simp: fire_def split: if_splits)
  with assms(1) have "status (heap s ! r') = Processing"
    by (auto simp: inv_def inv_encoders_def)
  then show ?thesis
    using assms End
    by (auto simp: fire_def on_end_def heap_assign_nth Let_def forward_def split: if_splits)
next
  case (Fail jobId r' err now now')
  with assms have "(jobId, r') \<in> set (encoders s)"
    by (auto simp: fire_def split: if_splits)
  with assms(1) have "status (heap s ! r') = Processing"
    by (auto simp: inv_def inv_encoders_def)
  then show ?thesis
    using assms Fail
    by (auto simp: fire_def on_error_def heap_assign_nth Let_def forward_def split: if_splits)
next
  case (Timeout h locked)
  then show ?thesis
    using assms by (auto simp: fire_def split: option.splits)
next
  case (Sweep locked now)
  then show ?thesis
    using assms by (auto simp: fire_def sweep_def)
qed

lemma forward_run:
  "inv c s \<Longrightarrow> run c evs s = Some s' \<Longrightarrow> r < length (heap s) \<Longrightarrow>
   r < length (heap s') \<and> forward (status (heap s ! r)) (status (heap s' ! r))"
proof (induction evs arbitrary: s)
  case Nil
  then show ?case by simp
next
  case (Cons e evs)
  from Cons.prems obtain s1 where f: "fire c e s = Some s1" and r: "run c evs s1 = Some s'"
    by (auto split: option.splits)
  from forward_fire [OF Cons.prems(1) f Cons.prems(3)]
  have 1: "r < length (heap s1)" "forward (status (heap s ! r)) (status (heap s1 ! r))"
    by simp_all
  from Cons.IH [OF inv_fire [OF Cons.prems(1) f] r 1(1)] 1(2)
  show ?case by (auto intro: forward_trans)
qed

lemma timer_handle_fresh: "inv_timers s \<Longrightarrow> map_of (timers s) (next_timer s) = None"
  by (fastforce simp: inv_timers_def map_of_eq_None_iff)

lemma floor_half: "\<lfloor>1 / 2 :: rat\<rfloor> = 0"
  by (rule floor_unique) simp_all

lemma round_in_range:
  "is_percent (Finite (of_int \<lfloor>q + 1 / 2\<rfloor>)) = (- 1 / 2 \<le> q \<and> q < 100 + 1 / 2)"
proof -
  have "(0 \<le> (of_int \<lfloor>q + 1 / 2\<rfloor> :: rat)) = (0 \<le> \<lfloor>q + 1 / 2\<rfloor>)"
    by simp
  moreover have "((of_int \<lfloor>q + 1 / 2\<rfloor> :: rat) \<le> 100) = (\<lfloor>q + 1 / 2\<rfloor> \<le> 100)"
    by (metis of_int_le_iff of_int_numeral)
  moreover have "(0 \<le> \<lfloor>q + 1 / 2\<rfloor>) = (- 1 / 2 \<le> q)"
    by auto
  moreover have "(\<lfloor>q + 1 / 2\<rfloor> \<le> 100) = (q < 100 + 1 / 2)"
    by (auto simp: floor_le_iff)
  ultimately show ?thesis
    by (simp add: is_percent_def)
qed

lemma Math_round_int: "Math_round (Finite (of_int n)) = Finite (of_int n)"
proof -
  have "\<lfloor>rat_of_int n + 1 / 2\<rfloor> = n"
    by (rule floor_unique) simp_all
  then show ?thesis by simp
qed

lemma map_of_filter_out: "k \<in> X \<Longrightarrow> map_of (filter (\<lambda>(k', _). k' \<notin> X) al) k = None"
  by (induction al) auto

lemma sweep_removes_expired:
  assumes "jobs_get s i = Some r" "expired now (heap s ! r)"
  shows "jobs_get (sweep locked now s) i = None"
proof -
  have "(i, r) \<in> set (jobs s)"
    using assms(1) by (auto simp: jobs_get_def dest: map_of_SomeD)
  then have "i \<in> fst ` {e \<in> set (jobs s). expired now (heap s ! snd e)}"
    using assms(2) by force
  then show ?thesis
    by (simp add: jobs_get_def sweep_def sweep_entries_jobs map_of_filter_out)
qed

lemma cleanup_removes: "jobs_get (cleanup_callback locked i r s) i = None"
  by (simp add: jobs_get_def map_of_eq_None_iff delete_notin_dom)

lemma cleanup_console:
  "console (cleanup_callback locked i r s) =
     console s @ (case snd (unlink_artifacts locked (heap s ! r) (files s)) of
                    None \<Rightarrow> [] | Some _ \<Rightarrow> [''cleanup error''])"
  by (simp add: cleanup_callback_def split: prod.splits)

lemma unlink_absent:
  "(inputPath j = [] \<or> inputPath j \<notin> fs) \<Longrightarrow> (outputPath j = [] \<or> outputPath j \<notin> fs) \<Longrightarrow>
   unlink_artifacts locked j fs = (fs, None)"
  by (auto simp: unlink_artifacts_def)

lemma unlink_shrinks: "fst (unlink_artifacts locked j fs) \<subseteq> fs"
  by (auto simp: unlink_artifacts_def unlinkSync_def split: sum.splits if_splits)

lemma unlink_unlocked:
  assumes "inputPath j \<notin> locked" "outputPath j \<notin> locked"
  shows "(inputPath j = [] \<or> inputPath j \<notin> fst (unlink_artifacts locked j fs)) \<and>
         (outputPath j = [] \<or> outputPath j \<notin> fst (unlink_artifacts locked j fs))"
  using assms by (auto simp: unlink_artifacts_def unlinkSync_def)

lemma sweep_body_files: "files (sweep_body locked now e s) \<subseteq> files s"
  using unlink_shrinks [of locked "heap s ! snd e" "files s"]
  by (auto simp: sweep_body_def split: prod.splits)

lemma sweep_entries_files: "files (sweep_entries locked now es s) \<subseteq> files s"
proof (induction es arbitrary: s)
  case Nil
  then show ?case by simp
next
  case (Cons e es)
  show ?case
    using Cons.IH [of "sweep_body locked now e s"] sweep_body_files [of locked now e s]
    by auto
qed

lemma sweep_body_unlinks:
  assumes "expired now (heap s ! r)"
    and "inputPath (heap s ! r) \<notin> locked" "outputPath (heap s ! r) \<notin> locked"
  shows "(inputPath (heap s ! r) = [] \<or> inputPath (heap s ! r) \<notin> files (sweep_body locked now (i, r) s)) \<and>
         (outputPath (heap s ! r) = [] \<or> outputPath (heap s ! r) \<notin> files (sweep_body locked now (i, r) s))"
  using assms unlink_unlocked [OF assms(2,3), of "files s"]
  by (auto simp: sweep_body_def split: prod.splits)

lemma sweep_entries_unlinks:
  assumes "(i, r) \<in> set es" "expired now (heap s ! r)"
    and "inputPath (heap s ! r) \<notin> locked" "outputPath (heap s ! r) \<notin> locked"
  shows "(inputPath (heap s ! r) = [] \<or> inputPath (heap s ! r) \<notin> files (sweep_entries locked now es s)) \<and>
         (outputPath (heap s ! r) = [] \<or> outputPath (heap s ! r) \<notin> files (sweep_entries locked now es s))"
  using assms
proof (induction es arbitrary: s)
  case Nil
  then show ?case by simp
next
  case (Cons e es)
  show ?case
  proof (cases "e = (i, r)")
    case True
    then show ?thesis
      using sweep_body_unlinks [OF Cons.prems(2,3,4), of i]
        sweep_entries_files [of locked now es "sweep_body locked now (i, r) s"]
      by auto
  next
    case False
    then have "(i, r) \<in> set es"
      using Cons.prems(1) by simp
    from Cons.IH [OF this, of "sweep_body locked now e s"] Cons.prems(2,3,4)
    show ?thesis by simp
  qed
qed

lemma sweep_entries_idle:
  "(\<forall>e \<in> set es. \<not> expired now (heap s ! snd e)) \<Longrightarrow> sweep_entries locked now es s = s"
  by (induction es arbitrary: s) (simp_all add: sweep_body_def)

lemma cleanup_idle:
  assumes "jobs_get s i = None"
    and "inputPath (heap s ! r) = [] \<or> inputPath (heap s ! r) \<notin> files s"
    and "outputPath (heap s ! r) = [] \<or> outputPath (heap s ! r) \<notin> files s"
  shows "cleanup_callback locked i r s = s"
proof -
  have "i \<notin> fst ` set (jobs s)"
    using assms(1) by (simp add: jobs_get_def map_of_eq_None_iff)
  then show ?thesis
    using unlink_absent [OF assms(2,3), of locked]
    by (simp add: cleanup_callback_def)
qed

lemma assign_ids:
  assumes "\<And>j. job_id (f j) = job_id j"
  shows "job_id ` set (heap (assign r f s)) = job_id ` set (heap s)"
  using job_ids_assign [of f s r] assms by (metis set_map)

lemma scheduleCleanup_ids:
  "job_id ` set (heap (scheduleCleanup i d now s)) = job_id ` set (heap s)"
  by (simp add: scheduleCleanup_def assign_ids split: option.splits)

lemma absent_fire:
  assumes "i \<in> set (map job_id (heap s))" "jobs_get s i = None" "fire c e s = Some s'"
  shows "i \<in> set (map job_id (heap s')) \<and> jobs_get s' i = None"
proof (cases e)
  case (Upload req_file jobId now)
  then show ?thesis
    using assms
    by (auto simp: fire_def upload_handler_def jobs_get_def update_conv' Let_def
             split: option.splits if_splits)
next
  case (Start jobId thrown now)
  then show ?thesis
    using assms
    by (auto simp: fire_def convertToMp3_def jobs_get_def assign_ids scheduleCleanup_ids Let_def
             split: option.splits if_splits)
next
  case (Progress jobId r percent)
  then show ?thesis
    using assms
    by (auto simp: fire_def on_progress_def jobs_get_def assign_ids scheduleCleanup_ids split: if_splits)
next
  case (End jobId r now now')
  then show ?thesis
    using assms
    by (auto simp: fire_def on_end_def jobs_get_def assign_ids scheduleCleanup_ids Let_def split: if_splits)
next
  case (Fail jobId r err now now')
  then show ?thesis
    using assms
    by (auto simp: fire_def on_error_def jobs_get_def assign_ids scheduleCleanup_ids Let_def split: if_splits)
next
  case (Timeout h locked)
  then show ?thesis
    using assms
    by (auto simp: fire_def jobs_get_def delete_conv' split: option.splits)
next
  case (Sweep locked now)
  have "fst ` set (jobs (sweep locked now s)) \<subseteq> fst ` set (jobs s)"
    by (auto simp: sweep_def sweep_entries_jobs)
  then show ?thesis
    using assms Sweep by (auto simp: fire_def jobs_get_def map_of_eq_None_iff sweep_def)
qed

lemma absent_run:
  "i \<in> set (map job_id (heap s)) \<Longrightarrow> jobs_get s i = None \<Longrightarrow> run c evs s = Some s' \<Longrightarrow>
   jobs_get s' i = None"
proof (induction evs arbitrary: s)
  case Nil
  then show ?case by simp
next
  case (Cons e evs)
  from Cons.prems(3) obtain s1 where f: "fire c e s = Some s1" and r: "run c evs s1 = Some s'"
    by (auto split: option.splits)
  from absent_fire [OF Cons.prems(1,2) f] Cons.IH [OF _ _ r]
  show ?case by blast
qed

lemma sweep_absent: "jobs_get s i = None \<Longrightarrow> jobs_get (sweep locked now s) i = None"
  by (auto simp: jobs_get_def map_of_eq_None_iff sweep_def sweep_entries_jobs)

lemma sweep_frame [simp]:
  "heap (sweep locked now s) = heap s" "timers (sweep locked now s) = timers s"
  by (simp_all add: sweep_def)

lemma unlink_unlocked_eq: "unlink_artifacts {} j fs = (fs - artifacts j, None)"
  by (auto simp: unlink_artifacts_def unlinkSync_def artifacts_def)

lemma sweep_body_unlocked:
  "sweep_body {} now e s =
     (if expired now (heap s ! snd e)
      then s\<lparr>files := files s - artifacts (heap s ! snd e), jobs := AList.delete (fst e) (jobs s)\<rparr>
      else s)"
  by (simp add: sweep_body_def unlink_unlocked_eq)

lemma sweep_entries_unlocked_files:
  "files (sweep_entries {} now es s) =
     files s - (\<Union>e \<in> {e \<in> set es. expired now (heap s ! snd e)}. artifacts (heap s ! snd e))"
proof (induction es arbitrary: s)
  case Nil
  then show ?case by simp
next
  case (Cons e es)
  show ?case
    by (auto simp: Cons.IH sweep_body_unlocked)
qed

lemma sweep_entries_unlocked_console:
  "console (sweep_entries {} now es s) = console s"
  by (induction es arbitrary: s) (simp_all add: sweep_body_unlocked)

lemma cleanup_unlocked:
  "cleanup_callback {} i r s =
     s\<lparr>files := files s - artifacts (heap s ! r), jobs := AList.delete i (jobs s)\<rparr>"
  by (simp add: cleanup_callback_def unlink_unlocked_eq)

lemma orders_agree:
  assumes "inv c s" "jobs_get s i = Some r" "expired now (heap s ! r)"
  shows "sweep {} now (cleanup_callback {} i r (s\<lparr>timers := AList.delete h (timers s)\<rparr>)) =
         (sweep {} now s)\<lparr>timers := AList.delete h (timers s)\<rparr>"
    (is "?sa = ?w")
proof (rule state.equality)
  let ?P = "\<lambda>e. expired now (heap s ! snd e)"
  let ?E = "{e \<in> set (jobs s). ?P e}"
  let ?E' = "{e \<in> set (AList.delete i (jobs s)). ?P e}"
  have m: "(i, r) \<in> set (jobs s)"
    using assms(2) by (auto simp: jobs_get_def dest: map_of_SomeD)
  have d: "distinct (map fst (jobs s))"
    using assms(1) by (simp add: inv_def inv_jobs_def)
  have only: "\<And>e. e \<in> set (jobs s) \<Longrightarrow> fst e = i \<Longrightarrow> e = (i, r)"
    using d m by (metis eq_key_imp_eq_value prod.collapse)
  have E: "?E = insert (i, r) ?E'"
  proof
    show "?E \<subseteq> insert (i, r) ?E'"
      using only by (auto simp: AList.delete_eq)
    show "insert (i, r) ?E' \<subseteq> ?E"
      using m assms(3) by (auto simp: AList.delete_eq)
  qed
  have ni: "i \<notin> fst ` ?E'"
    by (auto simp: AList.delete_eq)
  have j1: "jobs ?sa = filter (\<lambda>(k, _). k \<notin> fst ` ?E') (AList.delete i (jobs s))"
    by (simp add: sweep_def sweep_entries_jobs cleanup_unlocked)
  have j2: "jobs ?w = filter (\<lambda>(k, _). k \<notin> fst ` ?E) (jobs s)"
    by (simp add: sweep_def sweep_entries_jobs)
  show "jobs ?sa = jobs ?w"
    unfolding j1 j2 E by (auto simp: AList.delete_eq intro!: filter_cong)
  have f1: "files ?sa = (files s - artifacts (heap s ! r)) - (\<Union>e \<in> ?E'. artifacts (heap s ! snd e))"
    by (simp add: sweep_def sweep_entries_unlocked_files cleanup_unlocked)
  have f2: "files ?w = files s - (\<Union>e \<in> ?E. artifacts (heap s ! snd e))"
    by (simp add: sweep_def sweep_entries_unlocked_files)
  show "files ?sa = files ?w"
    unfolding f1 f2 E by auto
  show "console ?sa = console ?w"
    by (simp add: sweep_def sweep_entries_unlocked_console cleanup_unlocked)
qed (simp_all add: sweep_def cleanup_unlocked)

section \<open>The concrete scenario, evaluated\<close>

lemmas model_defs = fire_def upload_handler_def convertToMp3_def jobs_get_def assign_def
  on_progress_def on_end_def on_error_def scheduleCleanup_def cleanup_callback_def
  unlink_artifacts_def unlinkSync_def sweep_def sweep_body_def expired_def TTL_MS_def init_def
  Let_def path_join_def or_0_def message_or_string_def get_status_def download_def
  insert_Diff_if

lemmas demo_defs = demo_conf_def demo_file_def demo_err_def demo_job_def demo_processing_def
  demo_done_def

lemma demo_processing_run:
  "run demo_conf [Upload (Some demo_file) ''a'' 5, Start ''a'' None 6] (init {}) = Some demo_processing"
  by (simp add: model_defs demo_defs)

lemma demo_done_step:
  "fire demo_conf (End ''a'' 0 9 9) demo_processing = Some demo_done"
  by (simp add: model_defs demo_defs)

lemma demo_done_run:
  "run demo_conf [Upload (Some demo_file) ''a'' 5, Start ''a'' None 6, End ''a'' 0 9 9] (init {}) = Some demo_done"
  by (simp add: model_defs demo_defs)

lemma demo_failed_run:
  "run demo_conf [Upload (Some demo_file) ''a'' 5, Start ''a'' None 6, Fail ''a'' 0 demo_err 9 9] (init {}) = Some demo_failed"
  by (simp add: model_defs demo_defs demo_failed_def)

lemma demo_two_run:
  "run demo_conf [Upload (Some demo_file) ''a'' 5, Upload (Some \<lparr>path = ''up/w''\<rparr>) ''b'' 7] (init {}) = Some demo_two"
  by (simp add: model_defs demo_defs demo_two_def)

section \<open>The claims\<close>

text \<open>
  Claim C1. Take any state the server can reach and any further sequence of events
  (upload, start of the conversion with or without a thrown exception, encoder progress,
  success and failure, timer eviction, sweep). Every job object that exists before those
  events still exists after them, and its status has either not changed or moved to a later
  stage of queued, processing, done/error; a status that was done or error is unchanged.
\<close>

theorem status_moves_forward:
  assumes "run c evs (init fs) = Some s" and "run c evs' s = Some s'" and "r < length (heap s)"
  shows "r < length (heap s') \<and>
         forward (status (heap s ! r)) (status (heap s' ! r)) \<and>
         (status (heap s ! r) = Done \<or> status (heap s ! r) = Error
            \<longrightarrow> status (heap s' ! r) = status (heap s ! r))"
  using forward_run [OF inv_reachable [OF assms(1)] assms(2,3)] forward_terminal by blast

theorem status_moves_forward_witness:
  "run demo_conf [Upload (Some demo_file) ''a'' 5, Start ''a'' None 6] (init {}) = Some demo_processing \<and>
   run demo_conf [End ''a'' 0 9 9] demo_processing = Some demo_done \<and>
   (0::nat) < length (heap demo_processing) \<and>
   status (heap demo_processing ! 0) = Processing \<and>
   status (heap demo_done ! 0) = Done \<and>
   forward (status (heap demo_processing ! 0)) (status (heap demo_done ! 0))"
proof -
  have a: "run demo_conf [Upload (Some demo_file) ''a'' 5, Start ''a'' None 6] (init {}) = Some demo_processing"
    by (rule demo_processing_run)
  have b: "run demo_conf [End ''a'' 0 9 9] demo_processing = Some demo_done"
    by (simp add: demo_done_step)
  have c: "(0::nat) < length (heap demo_processing)"
    by (simp add: demo_defs)
  show ?thesis
    using a b c status_moves_forward [OF a b c] by (simp add: demo_defs)
qed

text \<open>
  Claim C2. In a reachable state let the clean-up timer \<open>h\<close> of job \<open>i\<close> be pending.
  The timer and a sweep can run in either order, and afterwards the Map holds no record for
  \<open>i\<close>, nor after any further events. The eviction that comes second repeats nothing. If
  the sweep comes first and evicts the job (the Map holds it and it has expired), the timer
  that fires later leaves the Map as the sweep left it, and when the sweep's deletions did
  not fail it changes nothing but its own pending entry. If the timer comes first, a sweep
  that finds no other expired job changes nothing at all. When no deletion fails, the two
  orders end in the same state. Deleting artifacts that are absent
  raises no error and leaves the files as they are, and \<^verbatim>\<open>jobs.delete\<close> of an absent
  identifier leaves the Map as it is.
\<close>

theorem eviction_exactly_once:
  assumes "run c evs (init fs) = Some s"
    and "map_of (timers s) h = Some (i, r)"
  shows "let sa = sweep lb now (cleanup_callback la i r (s\<lparr>timers := AList.delete h (timers s)\<rparr>));
             sb = cleanup_callback lb i r ((sweep la now s)\<lparr>timers := AList.delete h (timers s)\<rparr>)
         in run c [Timeout h la, Sweep lb now] s = Some sa \<and>
            run c [Sweep la now, Timeout h lb] s = Some sb \<and>
            jobs_get sa i = None \<and> jobs_get sb i = None \<and>
            (\<forall>evs' s'. run c evs' sa = Some s' \<or> run c evs' sb = Some s' \<longrightarrow> jobs_get s' i = None) \<and>
            (jobs_get s i = Some r \<and> expired now (heap s ! r) \<longrightarrow>
               jobs sb = jobs (sweep la now s) \<and>
               (inputPath (heap s ! r) \<notin> la \<and> outputPath (heap s ! r) \<notin> la \<longrightarrow>
                  sb = (sweep la now s)\<lparr>timers := AList.delete h (timers s)\<rparr>)) \<and>
            ((\<forall>e \<in> set (jobs s). fst e \<noteq> i \<longrightarrow> \<not> expired now (heap s ! snd e)) \<longrightarrow>
               sa = cleanup_callback la i r (s\<lparr>timers := AList.delete h (timers s)\<rparr>)) \<and>
            (jobs_get s i = Some r \<and> expired now (heap s ! r) \<and> la = {} \<and> lb = {} \<longrightarrow> sa = sb) \<and>
            (\<forall>locked j F. (inputPath j = [] \<or> inputPath j \<notin> F) \<and> (outputPath j = [] \<or> outputPath j \<notin> F)
               \<longrightarrow> unlink_artifacts locked j F = (F, None)) \<and>
            (\<forall>st. jobs_get st i = None \<longrightarrow> AList.delete i (jobs st) = jobs st)"
proof -
  let ?t = "cleanup_callback la i r (s\<lparr>timers := AList.delete h (timers s)\<rparr>)"
  let ?sa = "sweep lb now ?t"
  let ?w = "(sweep la now s)\<lparr>timers := AList.delete h (timers s)\<rparr>"
  let ?sb = "cleanup_callback lb i r ?w"
  have I: "inv c s"
    using assms(1) by (rule inv_reachable)
  have "(h, i, r) \<in> set (timers s)"
    using assms(2) by (rule map_of_SomeD)
  then have b: "r < length (heap s)" "job_id (heap s ! r) = i"
    using I by (auto simp: inv_def inv_timers_def)
  then have iss: "i \<in> job_id ` set (heap s)"
    by (metis image_eqI nth_mem)
  have runA: "run c [Timeout h la, Sweep lb now] s = Some ?sa"
    using assms(2) by (simp add: fire_def)
  have runB: "run c [Sweep la now, Timeout h lb] s = Some ?sb"
    using assms(2) by (simp add: fire_def)
  have gA: "jobs_get ?sa i = None"
    by (rule sweep_absent) (rule cleanup_removes)
  have gB: "jobs_get ?sb i = None"
    by (rule cleanup_removes)
  have later: "\<And>evs' s'. run c evs' ?sa = Some s' \<or> run c evs' ?sb = Some s' \<Longrightarrow> jobs_get s' i = None"
  proof -
    fix evs' s' assume "run c evs' ?sa = Some s' \<or> run c evs' ?sb = Some s'"
    then show "jobs_get s' i = None"
    proof
      assume "run c evs' ?sa = Some s'"
      then show ?thesis
        using absent_run [of i ?sa c evs' s'] gA iss by simp
    next
      assume "run c evs' ?sb = Some s'"
      then show ?thesis
        using absent_run [of i ?sb c evs' s'] gB iss by simp
    qed
  qed
  have same: "jobs ?sb = jobs (sweep la now s)"
    if "jobs_get s i = Some r \<and> expired now (heap s ! r)"
    using that sweep_removes_expired [of s i r now la]
    by (simp add: jobs_get_def map_of_eq_None_iff)
  have second_timer: "?sb = ?w"
    if "jobs_get s i = Some r \<and> expired now (heap s ! r)"
      and "inputPath (heap s ! r) \<notin> la \<and> outputPath (heap s ! r) \<notin> la"
  proof (rule cleanup_idle)
    show "jobs_get ?w i = None"
      using that(1) sweep_removes_expired [of s i r now la] by (simp add: jobs_get_def)
    have m: "(i, r) \<in> set (jobs s)"
      using that(1) by (auto simp: jobs_get_def dest: map_of_SomeD)
    from sweep_entries_unlinks [OF m, of now s la] that
    show "inputPath (heap ?w ! r) = [] \<or> inputPath (heap ?w ! r) \<notin> files ?w"
      and "outputPath (heap ?w ! r) = [] \<or> outputPath (heap ?w ! r) \<notin> files ?w"
      by (simp_all add: sweep_def)
  qed
  have second_sweep: "?sa = ?t" if "\<forall>e \<in> set (jobs s). fst e \<noteq> i \<longrightarrow> \<not> expired now (heap s ! snd e)"
    unfolding sweep_def
  proof (rule sweep_entries_idle)
    show "\<forall>e \<in> set (jobs ?t). \<not> expired now (heap ?t ! snd e)"
      using that by (auto simp: AList.delete_eq)
  qed
  have agree: "?sa = ?sb" if "jobs_get s i = Some r \<and> expired now (heap s ! r) \<and> la = {} \<and> lb = {}"
  proof -
    have "?sa = ?w"
      using that orders_agree [OF I, of i r now h] by simp
    moreover have "?sb = ?w"
      using that second_timer by simp
    ultimately show ?thesis by simp
  qed
  have absent_files: "\<And>locked j F. (inputPath j = [] \<or> inputPath j \<notin> F) \<and> (outputPath j = [] \<or> outputPath j \<notin> F)
               \<Longrightarrow> unlink_artifacts locked j F = (F, None)"
    by (simp add: unlink_absent)
  have absent_id: "\<And>st. jobs_get st i = None \<Longrightarrow> AList.delete i (jobs st) = jobs st"
    by (simp add: jobs_get_def map_of_eq_None_iff)
  show ?thesis
    unfolding Let_def
    using runA runB gA gB same later second_timer second_sweep agree absent_files absent_id
    by blast
qed

theorem eviction_exactly_once_witness:
  "run demo_conf [Upload (Some demo_file) ''a'' 5, Start ''a'' None 6, End ''a'' 0 9 9] (init {}) = Some demo_done \<and>
   map_of (timers demo_done) 0 = Some (''a'', 0) \<and>
   jobs_get demo_done ''a'' = Some 0 \<and>
   expired 3600010 (heap demo_done ! 0) \<and>
   run demo_conf [Timeout 0 {}, Sweep {} 3600010] demo_done = Some demo_evicted \<and>
   run demo_conf [Sweep {} 3600010, Timeout 0 {}] demo_done = Some demo_evicted \<and>
   jobs_get demo_evicted ''a'' = None"
proof -
  have t: "map_of (timers demo_done) 0 = Some (''a'', 0)"
    and g: "jobs_get demo_done ''a'' = Some 0"
    and x: "expired 3600010 (heap demo_done ! 0)"
    by (simp_all add: demo_defs demo_evicted_def jobs_get_def expired_def)
  have a: "sweep {} 3600010 (cleanup_callback {} ''a'' 0 (demo_done\<lparr>timers := AList.delete 0 (timers demo_done)\<rparr>)) = demo_evicted"
    by (simp add: model_defs demo_defs demo_evicted_def)
  have b: "cleanup_callback {} ''a'' 0 ((sweep {} 3600010 demo_done)\<lparr>timers := AList.delete 0 (timers demo_done)\<rparr>) = demo_evicted"
    by (simp add: model_defs demo_defs demo_evicted_def)
  show ?thesis
    using eviction_exactly_once [OF demo_done_run t, where la = "{}" and lb = "{}" and now = 3600010]
      demo_done_run t g x
    unfolding Let_def a b by simp
qed

text \<open>
  Claim C3. In a reachable state, the success event of a running encoder finds its
  job in processing and leaves it with status done, progress 100, \<open>finishedAt\<close> the current
  time and \<open>expiresAt\<close> the current time plus the TTL; a new clean-up timer for that
  identifier and job object is pending, and the job holds its handle.
\<close>

theorem success_event:
  assumes "run c evs (init fs) = Some s" and "fire c (End i r now now') s = Some s'"
  shows "status (heap s ! r) = Processing \<and>
         status (heap s' ! r) = Done \<and>
         progress (heap s' ! r) = Finite 100 \<and>
         finishedAt (heap s' ! r) = Some now \<and>
         expiresAt (heap s' ! r) = Some (now' + TTL_MS c) \<and>
         cleanupTimer (heap s' ! r) = Some (next_timer s) \<and>
         map_of (timers s) (next_timer s) = None \<and>
         map_of (timers s') (next_timer s) = Some (i, r)"
proof -
  have I: "inv c s"
    using assms(1) by (rule inv_reachable)
  have m: "(i, r) \<in> set (encoders s)"
    and s': "s' = on_end c i r now now' (s\<lparr>encoders := remove1 (i, r) (encoders s),
                 files := insert (outputPath (heap s ! r)) (files s)\<rparr>)"
    using assms(2) by (auto simp: fire_def split: if_splits)
  have g: "jobs_get s i = Some r" and st: "status (heap s ! r) = Processing"
    using I m by (auto simp: inv_def inv_encoders_def)
  have b: "r < length (heap s)"
    using I g jobs_get_bound by (auto simp: inv_def)
  have n: "map_of (timers s) (next_timer s) = None"
    using I timer_handle_fresh by (simp add: inv_def)
  show ?thesis
    using g st b n unfolding s'
    by (simp add: on_end_def Let_def scheduleCleanup_Some jobs_get_def heap_assign_nth
          map_add_def)
qed

theorem success_event_witness:
  "run demo_conf [Upload (Some demo_file) ''a'' 5, Start ''a'' None 6] (init {}) = Some demo_processing \<and>
   fire demo_conf (End ''a'' 0 9 9) demo_processing = Some demo_done \<and>
   status (heap demo_done ! 0) = Done \<and>
   progress (heap demo_done ! 0) = Finite 100 \<and>
   finishedAt (heap demo_done ! 0) = Some 9 \<and>
   expiresAt (heap demo_done ! 0) = Some (9 + TTL_MS demo_conf) \<and>
   map_of (timers demo_done) (next_timer demo_processing) = Some (''a'', 0)"
  using success_event [OF demo_processing_run demo_done_step] demo_processing_run demo_done_step
  by simp

text \<open>
  Claim C4 does not hold for the code. The same upload is followed once by an encoder
  start that throws and once by an encoder failure event, with the same error at the same
  time. Both leave the status error, the message recorded and the eviction armed, but only the
  failure handler stamps \<open>finishedAt\<close>: the \<^verbatim>\<open>catch\<close> block leaves it undefined.
\<close>

theorem catch_leaves_finishedAt_unset:
  "run demo_conf [Upload (Some demo_file) ''a'' 5, Start ''a'' (Some demo_err) 9] (init {}) = Some demo_thrown \<and>
   run demo_conf [Upload (Some demo_file) ''a'' 5, Start ''a'' None 6, Fail ''a'' 0 demo_err 9 9] (init {}) = Some demo_failed \<and>
   status (heap demo_thrown ! 0) = Error \<and> status (heap demo_failed ! 0) = Error \<and>
   error (heap demo_thrown ! 0) = Some ''boom'' \<and> error (heap demo_failed ! 0) = Some ''boom'' \<and>
   expiresAt (heap demo_thrown ! 0) = Some 3600009 \<and> expiresAt (heap demo_failed ! 0) = Some 3600009 \<and>
   timers demo_thrown = [(0, ''a'', 0)] \<and> timers demo_failed = [(0, ''a'', 0)] \<and>
   finishedAt (heap demo_failed ! 0) = Some 9 \<and>
   finishedAt (heap demo_thrown ! 0) = None"
  by (simp add: model_defs demo_defs demo_thrown_def demo_failed_def)

text \<open>
  Claim C5. A download request for an identifier that the Map does not hold is
  answered 404; for an identifier it holds, the answer is 400 exactly when the status is not
  done or the output file is not on disk, and the file is streamed exactly when the status is
  done and the output file is on disk.
\<close>

theorem download_gate:
  "(jobs_get s i = None \<longrightarrow> download s i = Json 404 (ErrorBody ''Job not found'')) \<and>
   (\<forall>r. jobs_get s i = Some r \<longrightarrow>
      ((download s i = Json 400 (ErrorBody ''Output not ready'')) =
         (status (heap s ! r) \<noteq> Done \<or> outputPath (heap s ! r) \<notin> files s)) \<and>
      ((download s i = Download (outputPath (heap s ! r)) (''audio-'' @ job_id (heap s ! r) @ ''.mp3'')) =
         (status (heap s ! r) = Done \<and> outputPath (heap s ! r) \<in> files s))) \<and>
   ((\<exists>p n. download s i = Download p n) =
      (\<exists>r. jobs_get s i = Some r \<and> status (heap s ! r) = Done \<and> outputPath (heap s ! r) \<in> files s))"
  by (auto simp: download_def Let_def split: option.splits)

theorem download_gate_witness:
  "jobs_get demo_done ''a'' = Some 0 \<and>
   status (heap demo_done ! 0) = Done \<and>
   outputPath (heap demo_done ! 0) \<in> files demo_done \<and>
   download demo_done ''a'' = Download ''out/a.mp3'' ''audio-a.mp3'' \<and>
   download demo_processing ''a'' = Json 400 (ErrorBody ''Output not ready'') \<and>
   jobs_get demo_done ''b'' = None \<and>
   download demo_done ''b'' = Json 404 (ErrorBody ''Job not found'')"
  using download_gate [of demo_done "''a''"] download_gate [of demo_done "''b''"]
    download_gate [of demo_processing "''a''"]
  by (simp add: demo_defs jobs_get_def)

text \<open>
  Claim C6. In a reachable state, a status request for an identifier that the Map
  does not hold is answered 404; for an identifier it holds, the payload carries a download
  URL if and only if the status is done, and an error message if and only if the status is
  error.
\<close>

theorem status_payload_fields:
  assumes "run c evs (init fs) = Some s"
  shows "(jobs_get s i = None \<longrightarrow> get_status s i = Json 404 (ErrorBody ''Job not found'')) \<and>
         (\<forall>r. jobs_get s i = Some r \<longrightarrow>
            (\<exists>p. get_status s i = Json 200 (StatusBody p) \<and>
                 p_id p = i \<and> p_status p = status (heap s ! r) \<and>
                 (p_downloadUrl p \<noteq> None) = (p_status p = Done) \<and>
                 (p_error p \<noteq> None) = (p_status p = Error)))"
proof -
  have I: "inv c s"
    using assms(1) by (rule inv_reachable)
  show ?thesis
  proof (intro conjI allI impI)
    assume "jobs_get s i = None"
    then show "get_status s i = Json 404 (ErrorBody ''Job not found'')"
      by (simp add: get_status_def)
  next
    fix r assume g: "jobs_get s i = Some r"
    then have "r < length (heap s)" "job_id (heap s ! r) = i"
      using I jobs_get_bound by (auto simp: inv_def)
    then show "\<exists>p. get_status s i = Json 200 (StatusBody p) \<and>
                 p_id p = i \<and> p_status p = status (heap s ! r) \<and>
                 (p_downloadUrl p \<noteq> None) = (p_status p = Done) \<and>
                 (p_error p \<noteq> None) = (p_status p = Error)"
      using I g by (auto simp: get_status_def Let_def inv_def inv_heap_def)
  qed
qed

theorem status_payload_fields_witness:
  "run demo_conf [Upload (Some demo_file) ''a'' 5, Start ''a'' None 6, End ''a'' 0 9 9] (init {}) = Some demo_done \<and>
   jobs_get demo_done ''a'' = Some 0 \<and>
   get_status demo_done ''a'' =
     Json 200 (StatusBody \<lparr>p_id = ''a'', p_status = Done, p_progress = Finite 100,
                           p_downloadUrl = Some ''/api/download/a'', p_error = None\<rparr>) \<and>
   jobs_get demo_done ''b'' = None \<and>
   get_status demo_done ''b'' = Json 404 (ErrorBody ''Job not found'') \<and>
   get_status demo_failed ''a'' =
     Json 200 (StatusBody \<lparr>p_id = ''a'', p_status = Error, p_progress = Finite 0,
                           p_downloadUrl = None, p_error = Some ''boom''\<rparr>)"
  using status_payload_fields [OF demo_done_run, of "''a''"]
    status_payload_fields [OF demo_done_run, of "''b''"]
    status_payload_fields [OF demo_failed_run, of "''a''"] demo_done_run
  by (simp add: demo_defs demo_failed_def model_defs)

text \<open>
  Claim C7. In the state the upload handler leaves for an accepted file, before any
  later callback has run, a status request for the new identifier is answered with status
  queued, progress 0, no download URL and no error; the handler's own answer is 202, and the
  conversion is only scheduled (a pending tick), not started.
\<close>

theorem status_after_upload:
  "get_status (fst (upload_handler c (Some f) jobId now s)) jobId =
     Json 200 (StatusBody \<lparr>p_id = jobId, p_status = Queued, p_progress = Finite 0,
                           p_downloadUrl = None, p_error = None\<rparr>) \<and>
   snd (upload_handler c (Some f) jobId now s) =
     Json 202 (UploadBody jobId (''/api/status/'' @ jobId) (''/api/download/'' @ jobId)) \<and>
   ticks (fst (upload_handler c (Some f) jobId now s)) = ticks s @ [jobId] \<and>
   encoders (fst (upload_handler c (Some f) jobId now s)) = encoders s"
  by (simp add: upload_handler_def get_status_def jobs_get_def Let_def update_conv' or_0_def)

text \<open>
  Claim C8 as stated fails: a progress event that reports 150 percent stores 150,
  which is not in the range 0 to 100.
\<close>

theorem progress_not_clamped:
  "fire demo_conf (Progress ''a'' 0 (Some (Finite 150))) demo_processing =
     Some (demo_processing\<lparr>heap := [demo_job\<lparr>status := Processing, progress := Finite 150\<rparr>]\<rparr>) \<and>
   \<not> is_percent (Finite 150)"
  using Math_round_int [of 150] by (simp add: model_defs demo_defs is_percent_def)

text \<open>
  Claim C8, as amended. After a progress event the stored progress is
  \<^verbatim>\<open>Math.round(p.percent || 0)\<close>: 0 when the percentage is undefined or \<^verbatim>\<open>NaN\<close>, and
  otherwise the reported value rounded to the nearest integer (a tie going up). Nothing is
  clamped: the stored value is an integer from 0 to 100 exactly when the reported value is
  at least -0.5 and below 100.5, and an integer that is reported is stored as it is.
\<close>

theorem progress_event:
  assumes "r < length (heap s)"
  shows "progress (heap (on_progress r p s) ! r) = Math_round (or_0 p) \<and>
         progress (heap (on_progress r None s) ! r) = Finite 0 \<and>
         progress (heap (on_progress r (Some NaN) s) ! r) = Finite 0 \<and>
         progress (heap (on_progress r (Some (Finite q)) s) ! r) = Finite (of_int \<lfloor>q + 1 / 2\<rfloor>) \<and>
         is_percent (progress (heap (on_progress r (Some (Finite q)) s) ! r)) =
           (- 1 / 2 \<le> q \<and> q < 100 + 1 / 2) \<and>
         progress (heap (on_progress r (Some (Finite (of_int n))) s) ! r) = Finite (of_int n)"
proof -
  have 1: "\<And>p. progress (heap (on_progress r p s) ! r) = Math_round (or_0 p)"
    using assms by (simp add: on_progress_def heap_assign_nth)
  have 2: "Math_round (or_0 None) = Finite 0" "Math_round (or_0 (Some NaN)) = Finite 0"
    by (simp_all add: or_0_def floor_half)
  have 3: "Math_round (or_0 (Some (Finite q))) = Finite (of_int \<lfloor>q + 1 / 2\<rfloor>)"
    by (simp add: or_0_def floor_half)
  have 4: "Math_round (or_0 (Some (Finite (of_int n)))) = Finite (of_int n)"
    using Math_round_int [of n] by (auto simp: or_0_def floor_half)
  show ?thesis
    unfolding 1 using 2 3 4 round_in_range by simp
qed

theorem progress_event_witness:
  "(0::nat) < length (heap demo_processing) \<and>
   progress (heap (on_progress 0 (Some (Finite (83 / 2))) demo_processing) ! 0) = Finite 42 \<and>
   is_percent (Finite 42) \<and>
   progress (heap (on_progress 0 None demo_processing) ! 0) = Finite 0 \<and>
   progress (heap (on_progress 0 (Some (Finite 150)) demo_processing) ! 0) = Finite 150"
proof -
  have a: "(0::nat) < length (heap demo_processing)"
    by (simp add: demo_defs)
  have b: "\<lfloor>83 / 2 + 1 / 2 :: rat\<rfloor> = 42"
    by (rule floor_unique) simp_all
  show ?thesis
    using a progress_event [OF a, of "Some PosInf" "83 / 2" 150] b
    by (simp add: is_percent_def)
qed

text \<open>
  Claim C9. Whatever paths \<^verbatim>\<open>unlinkSync\<close> fails on (\<open>locked\<close>), a pending clean-up
  timer can fire and a sweep can run, neither throws, and afterwards the Map does not hold
  the identifier (the timer's, or that of any job the sweep finds expired), so that a status
  request is answered with the plain 404; a failed deletion only adds a line to the
  console.
\<close>

theorem eviction_despite_unlink_errors:
  "(map_of (timers s) h = Some (i, r) \<longrightarrow>
      fire c (Timeout h locked) s =
        Some (cleanup_callback locked i r (s\<lparr>timers := AList.delete h (timers s)\<rparr>)) \<and>
      jobs_get (cleanup_callback locked i r (s\<lparr>timers := AList.delete h (timers s)\<rparr>)) i = None \<and>
      get_status (cleanup_callback locked i r (s\<lparr>timers := AList.delete h (timers s)\<rparr>)) i =
        Json 404 (ErrorBody ''Job not found'') \<and>
      (snd (unlink_artifacts locked (heap s ! r) (files s)) \<noteq> None \<longrightarrow>
         console (cleanup_callback locked i r (s\<lparr>timers := AList.delete h (timers s)\<rparr>)) =
           console s @ [''cleanup error''])) \<and>
   (jobs_get s i = Some r \<and> expired now (heap s ! r) \<longrightarrow>
      fire c (Sweep locked now) s = Some (sweep locked now s) \<and>
      jobs_get (sweep locked now s) i = None \<and>
      get_status (sweep locked now s) i = Json 404 (ErrorBody ''Job not found''))"
  by (auto simp: fire_def cleanup_removes sweep_removes_expired get_status_def cleanup_console)

theorem eviction_despite_unlink_errors_witness:
  "map_of (timers demo_done) 0 = Some (''a'', 0) \<and>
   snd (unlink_artifacts {''up/v''} (heap demo_done ! 0) (files demo_done)) = Some (EPERM ''up/v'') \<and>
   fire demo_conf (Timeout 0 {''up/v''}) demo_done = Some demo_stuck \<and>
   jobs_get demo_stuck ''a'' = None \<and>
   files demo_stuck = files demo_done \<and>
   get_status demo_stuck ''a'' = Json 404 (ErrorBody ''Job not found'') \<and>
   jobs_get demo_done ''a'' = Some 0 \<and> expired 3600010 (heap demo_done ! 0) \<and>
   jobs_get (sweep {''up/v''} 3600010 demo_done) ''a'' = None"
  using eviction_despite_unlink_errors [of demo_done 0 "''a''" 0 demo_conf "{''up/v''}" 3600010]
  by (simp add: model_defs demo_defs demo_stuck_def)

text \<open>
  Claim C10. In a reachable state, two different entries of the Map have different
  identifiers, each job's \<open>outputPath\<close> is the output directory joined with its identifier
  and \<^verbatim>\<open>.mp3\<close>, so the two output paths differ, and unlinking the one output file leaves
  the other where it is.
\<close>

theorem output_paths_distinct:
  assumes "run c evs (init fs) = Some s"
    and "(k1, r1) \<in> set (jobs s)" and "(k2, r2) \<in> set (jobs s)" and "(k1, r1) \<noteq> (k2, r2)"
  shows "k1 \<noteq> k2 \<and>
         outputPath (heap s ! r1) = path_join (OUT_DIR c) (k1 @ ''.mp3'') \<and>
         outputPath (heap s ! r2) = path_join (OUT_DIR c) (k2 @ ''.mp3'') \<and>
         outputPath (heap s ! r1) \<noteq> outputPath (heap s ! r2) \<and>
         (\<forall>locked fs'. unlinkSync locked (outputPath (heap s ! r1)) (files s) = Inr fs' \<longrightarrow>
            (outputPath (heap s ! r2) \<in> fs') = (outputPath (heap s ! r2) \<in> files s))"
proof -
  have I: "inv c s"
    using assms(1) by (rule inv_reachable)
  then have d: "distinct (map fst (jobs s))"
    by (simp add: inv_def inv_jobs_def)
  have k: "k1 \<noteq> k2"
    using d assms(2,3,4) by (auto dest: eq_key_imp_eq_value)
  have b: "r1 < length (heap s)" "job_id (heap s ! r1) = k1"
          "r2 < length (heap s)" "job_id (heap s ! r2) = k2"
    using I assms(2,3) by (auto simp: inv_def inv_jobs_def)
  have o: "outputPath (heap s ! r1) = path_join (OUT_DIR c) (k1 @ ''.mp3'')"
          "outputPath (heap s ! r2) = path_join (OUT_DIR c) (k2 @ ''.mp3'')"
    using I b by (auto simp: inv_def inv_heap_def)
  have ne: "outputPath (heap s ! r1) \<noteq> outputPath (heap s ! r2)"
    using k unfolding o by (simp add: path_join_def)
  show ?thesis
    using k o ne by (auto simp: unlinkSync_def split: if_splits)
qed

theorem output_paths_distinct_witness:
  "run demo_conf [Upload (Some demo_file) ''a'' 5, Upload (Some \<lparr>path = ''up/w''\<rparr>) ''b'' 7] (init {}) = Some demo_two \<and>
   (''a'', 0) \<in> set (jobs demo_two) \<and> (''b'', 1) \<in> set (jobs demo_two) \<and>
   (''a'', 0::nat) \<noteq> (''b'', 1) \<and>
   outputPath (heap demo_two ! 0) = ''out/a.mp3'' \<and>
   outputPath (heap demo_two ! 1) = ''out/b.mp3'' \<and>
   outputPath (heap demo_two ! 0) \<noteq> outputPath (heap demo_two ! 1)"
proof -
  have a: "(''a'', 0) \<in> set (jobs demo_two)" and b: "(''b'', 1) \<in> set (jobs demo_two)"
    by (simp_all add: demo_defs demo_two_def)
  have c: "(''a'', 0::nat) \<noteq> (''b'', 1)"
    by simp
  show ?thesis
    using output_paths_distinct [OF demo_two_run a b c] demo_two_run a b
    by (simp add: demo_defs demo_two_def path_join_def)
qed

end
